theory Spec2Isabelle
  imports Main
begin

section \<open>BigInt arithmetic of the host language\<close>

text \<open>
  The module computes on JavaScript \<^verbatim>\<open>bigint\<close> values: unbounded integers whose
  division \<^verbatim>\<open>/\<close> truncates toward zero and whose remainder \<^verbatim>\<open>%\<close> takes the sign
  of the dividend.  Both raise a RangeError on a zero divisor; every divisor in the module
  is the modulus, the literal 2, or a value the enclosing loop has tested to be non-zero.
\<close>

definition tdiv :: "int \<Rightarrow> int \<Rightarrow> int" where
  "tdiv a b = sgn a * sgn b * (\<bar>a\<bar> div \<bar>b\<bar>)"

definition trem :: "int \<Rightarrow> int \<Rightarrow> int" where
  "trem a b = sgn a * (\<bar>a\<bar> mod \<bar>b\<bar>)"

section \<open>ShamirSecretShare\<close>

datatype error =
    InvalidThreshold      \<comment> \<open>\<^verbatim>\<open>throw new Error("Threshold k must be <= n")\<close>\<close>
  | InsufficientShares    \<comment> \<open>\<^verbatim>\<open>throw new Error("Need at least 2 shares")\<close>\<close>
  | SyntaxError           \<comment> \<open>raised by \<^verbatim>\<open>BigInt(...)\<close> on a string that is no integer literal\<close>

text \<open>The field \<^verbatim>\<open>PRIME\<close> of the class, with the digits of the source.\<close>

definition PRIME :: int where
  "PRIME = 57896044618658097711785492504343953926634992332820282019728792003956564819949"

text \<open>
  \<^verbatim>\<open>bigintPow(base, exp)\<close>: the two early returns hand back 1 and the unreduced base;
  otherwise the loop multiplies \<^verbatim>\<open>exp\<close> times, reducing after each step.
\<close>

definition bigintPow :: "int \<Rightarrow> nat \<Rightarrow> int" where
  "bigintPow base exp =
     (if exp = 0 then 1
      else if exp = 1 then base
      else fold (\<lambda>i result. trem (result * base) PRIME) [0..<exp] 1)"

text \<open>
  \<^verbatim>\<open>splitSecret(secret, n, k)\<close>.  The argument \<open>rnd\<close> stands for the random source:
  \<open>rnd i\<close> is the value of \<^verbatim>\<open>BigInt('0x' + randomBytes(32).toString('hex'))\<close> drawn
  for coefficient \<open>i\<close>, a natural number below \<open>2 ^ 256\<close>.
\<close>

definition coefficientsOf :: "(nat \<Rightarrow> nat) \<Rightarrow> int \<Rightarrow> int \<Rightarrow> int list" where
  "coefficientsOf rnd secret k =
     secret # map (\<lambda>i. trem (int (rnd i)) PRIME) [1..<nat k]"

definition evalShare :: "int list \<Rightarrow> int \<Rightarrow> int" where
  "evalShare coefficients x =
     fold (\<lambda>i y. let xPower = bigintPow x i
                 in trem (y + trem ((coefficients ! i) * xPower) PRIME) PRIME)
          [0..<length coefficients] 0"

definition splitSecret :: "(nat \<Rightarrow> nat) \<Rightarrow> int \<Rightarrow> int \<Rightarrow> int \<Rightarrow> error + int list" where
  "splitSecret rnd secret n k =
     (if k > n then Inl InvalidThreshold
      else let coefficients = coefficientsOf rnd secret k
           in Inr (map (\<lambda>x. evalShare coefficients x) [1..n]))"

text \<open>
  \<^verbatim>\<open>modInverse(a)\<close>: the extended Euclidean loop on the pairs \<open>(old_r, r)\<close> and
  \<open>(old_s, s)\<close>, then the sign fix of the result.
\<close>

function modInverseLoop :: "int \<Rightarrow> int \<Rightarrow> int \<Rightarrow> int \<Rightarrow> int" where
  "modInverseLoop old_r r old_s s =
     (if r \<noteq> 0
      then let quotient = tdiv old_r r
           in modInverseLoop r (old_r - quotient * r) s (old_s - quotient * s)
      else old_s)"
  by pat_completeness auto

lemma tdiv_remainder: "a - tdiv a b * b = trem a b"
proof -
  have "tdiv a b * b = sgn a * ((\<bar>a\<bar> div \<bar>b\<bar>) * \<bar>b\<bar>)"
    by (simp add: tdiv_def abs_sgn mult.assoc mult.left_commute)
  moreover have "a = sgn a * \<bar>a\<bar>"
    by (simp add: sgn_mult_abs)
  ultimately have "a - tdiv a b * b = sgn a * (\<bar>a\<bar> - (\<bar>a\<bar> div \<bar>b\<bar>) * \<bar>b\<bar>)"
    by (metis right_diff_distrib)
  then show ?thesis
    by (simp add: trem_def minus_div_mult_eq_mod)
qed

lemma abs_trem_less: "b \<noteq> 0 \<Longrightarrow> \<bar>trem a b\<bar> < \<bar>b\<bar>"
  by (simp add: trem_def abs_mult)

termination modInverseLoop
proof (relation "measure (\<lambda>(old_r, r, old_s, s). nat \<bar>r\<bar>)")
  show "wf (measure (\<lambda>(old_r, r, old_s, s). nat \<bar>r\<bar>))" by simp
next
  fix old_r r old_s s :: int and quotient :: int
  assume "r \<noteq> 0" and "quotient = tdiv old_r r"
  then have "\<bar>old_r - quotient * r\<bar> < \<bar>r\<bar>"
    using abs_trem_less [of r old_r] by (simp add: tdiv_remainder)
  then show "((r, old_r - quotient * r, s, old_s - quotient * s), (old_r, r, old_s, s))
               \<in> measure (\<lambda>(old_r, r, old_s, s). nat \<bar>r\<bar>)"
    by simp
qed

declare modInverseLoop.simps [simp del]

definition modInverse :: "int \<Rightarrow> int" where
  "modInverse a =
     (let old_s = modInverseLoop a PRIME 1 0
      in if old_s < 0 then old_s + PRIME else old_s)"

text \<open>
  \<^verbatim>\<open>reconstructSecret(shares)\<close>: Lagrange interpolation at 0 over the points
  \<open>(1, shares[0]), (2, shares[1]), ...\<close>.  \<open>normalize d\<close> is the source's
  \<^verbatim>\<open>(d % PRIME + PRIME) % PRIME\<close>.
\<close>

definition normalize :: "int \<Rightarrow> int" where
  "normalize d = trem (trem d PRIME + PRIME) PRIME"

definition lagrangeParts :: "int list \<Rightarrow> nat \<Rightarrow> nat \<Rightarrow> int \<times> int" where
  "lagrangeParts x_coords len i =
     fold (\<lambda>j (numerator, denominator).
             if i \<noteq> j
             then let diff_numerator = normalize (0 - x_coords ! j);
                      numerator' = trem (numerator * diff_numerator) PRIME;
                      diff_denom = normalize (x_coords ! i - x_coords ! j);
                      denominator' = trem (denominator * diff_denom) PRIME
                  in (numerator', denominator')
             else (numerator, denominator))
          [0..<len] (1, 1)"

definition reconstructSecret :: "int list \<Rightarrow> error + int" where
  "reconstructSecret shares =
     (if length shares < 2 then Inl InsufficientShares
      else let x_coords = map (\<lambda>i. int i + 1) [0..<length shares];
               secret = fold (\<lambda>i secret.
                          let (numerator, denominator) =
                                lagrangeParts x_coords (length shares) i;
                              lagrange = trem (numerator * modInverse denominator) PRIME;
                              term = trem ((shares ! i) * lagrange) PRIME
                          in trem (secret + term) PRIME)
                        [0..<length shares] 0;
               finalSecret = (if secret < 0 then secret + PRIME else secret)
           in Inr finalSecret)"

section \<open>Hexadecimal strings and number conversion\<close>

text \<open>
  \<^verbatim>\<open>v.toString(16)\<close> of a bigint: lower-case digits, most significant first, a
  leading minus sign for a negative value.  \<^verbatim>\<open>s.padStart(64, '0')\<close> fills on the left
  up to 64 characters and leaves a longer string as it is.
\<close>

definition digitChar :: "nat \<Rightarrow> char" where
  "digitChar d = ''0123456789abcdef'' ! d"

fun toHex :: "nat \<Rightarrow> string" where
  "toHex n = (if n < 16 then [digitChar n] else toHex (n div 16) @ [digitChar (n mod 16)])"

declare toHex.simps [simp del]

definition toString16 :: "int \<Rightarrow> string" where
  "toString16 v = (if v < 0 then CHR ''-'' # toHex (nat (- v)) else toHex (nat v))"

definition padStart :: "nat \<Rightarrow> char \<Rightarrow> string \<Rightarrow> string" where
  "padStart targetLength c s = replicate (targetLength - length s) c @ s"

text \<open>
  \<^verbatim>\<open>BigInt('0x' + s)\<close>: the text after the prefix must be one or more hexadecimal
  digits of either case, white space at the end being ignored; anything else raises a
  SyntaxError.  Characters are the code units below 256.
\<close>

definition hexValue :: "char \<Rightarrow> nat option" where
  "hexValue c =
     (let k = (of_char c :: nat)
      in if 48 \<le> k \<and> k \<le> 57 then Some (k - 48)
         else if 97 \<le> k \<and> k \<le> 102 then Some (k - 87)
         else if 65 \<le> k \<and> k \<le> 70 then Some (k - 55)
         else None)"

fun parseDigits :: "string \<Rightarrow> nat \<Rightarrow> nat option" where
  "parseDigits [] acc = Some acc"
| "parseDigits (c # cs) acc =
     (case hexValue c of None \<Rightarrow> None | Some d \<Rightarrow> parseDigits cs (16 * acc + d))"

definition isWhiteSpace :: "char \<Rightarrow> bool" where
  "isWhiteSpace c = ((of_char c :: nat) \<in> {9, 10, 11, 12, 13, 32, 160})"

definition trimEnd :: "string \<Rightarrow> string" where
  "trimEnd s = rev (dropWhile isWhiteSpace (rev s))"

definition BigIntHex :: "string \<Rightarrow> error + int" where
  "BigIntHex s =
     (let digits = trimEnd s
      in if digits = [] then Inl SyntaxError
         else case parseDigits digits 0 of
                None \<Rightarrow> Inl SyntaxError
              | Some v \<Rightarrow> Inr (int v))"

text \<open>
  \<^verbatim>\<open>Number(b)\<close> of a bigint is the double nearest to \<open>b\<close>, ties going to the even
  significand.  A magnitude of at most 53 bits is kept; a longer one keeps its 53 leading
  bits, rounded.  (The overflow to Infinity, from \<open>2 ^ 1024\<close> on, is not reached: every
  argument in the module is below the modulus.)
\<close>

fun bitLength :: "nat \<Rightarrow> nat" where
  "bitLength n = (if n = 0 then 0 else Suc (bitLength (n div 2)))"

declare bitLength.simps [simp del]

definition roundToDouble :: "nat \<Rightarrow> nat" where
  "roundToDouble m =
     (let len = bitLength m
      in if len \<le> 53 then m
         else let e = len - 53;
                  q = m div 2 ^ e;
                  r = m mod 2 ^ e;
                  half = 2 ^ (e - 1);
                  q' = (if r > half \<or> (r = half \<and> odd q) then q + 1 else q)
              in q' * 2 ^ e)"

definition toNumber :: "int \<Rightarrow> int" where
  "toNumber b = (if b < 0 then - int (roundToDouble (nat (- b))) else int (roundToDouble (nat b)))"

section \<open>MPCFramework\<close>

text \<open>The interface \<^verbatim>\<open>SecureValue\<close>, with its two nested objects.\<close>

record shares_t =
  party1 :: string
  party2 :: string

record metadata_t =
  fieldName :: string
  timestamp :: int
  partyCount :: int
  threshold :: int

record SecureValue =
  sv_id :: string
  sv_type :: string
  shares :: shares_t
  metadata :: metadata_t

text \<open>The two private maps of the framework object, keyed by share id and party index.\<close>

record mpc_state =
  party1Shares :: "string \<rightharpoonup> int"
  party2Shares :: "string \<rightharpoonup> int"

text \<open>
  What one call takes from outside the module: the random source read by
  \<^verbatim>\<open>splitSecret\<close>, the identifier \<^verbatim>\<open>uuidv4()\<close> returns and the clock
  \<^verbatim>\<open>Date.now()\<close>.  Each operation below creates at most one record, so it reads each
  of them once.
\<close>

record draws =
  randomBytes32 :: "nat \<Rightarrow> nat"
  uuidv4 :: string
  dateNow :: int

text \<open>
  A plaintext of type \<^verbatim>\<open>string | number\<close>.  \<open>Num v\<close> is a number whose
  \<^verbatim>\<open>Math.floor\<close> is the integer \<open>v\<close> (NaN and the infinities, on which
  \<^verbatim>\<open>BigInt\<close> raises a RangeError, have no counterpart here); a number is a double, so
  \<open>v\<close> is an integer that a double holds exactly: \<open>isNumberValue v\<close>.
\<close>

datatype plain = Str string | Num int

definition isNumberValue :: "int \<Rightarrow> bool" where
  "isNumberValue v = (toNumber v = v)"

text \<open>
  \<^verbatim>\<open>encode(value, fieldName)\<close>.  The digest function of the \<^verbatim>\<open>crypto\<close> library is
  a parameter: \<open>sha256 s\<close> is the SHA-256 digest of the UTF-8 bytes of \<open>s\<close>, read as a
  big-endian integer (what \<^verbatim>\<open>BigInt('0x' + hash)\<close> yields on the hexadecimal digest).
\<close>

definition encode ::
  "(string \<Rightarrow> nat) \<Rightarrow> draws \<Rightarrow> plain \<Rightarrow> string \<Rightarrow> mpc_state
     \<Rightarrow> error + (SecureValue \<times> mpc_state)" where
  "encode sha256 env value name st =
     (let secretValue = (case value of
                           Str s \<Rightarrow> trem (int (sha256 s)) PRIME
                         | Num v \<Rightarrow> v)
      in case splitSecret (randomBytes32 env) secretValue 2 2 of
           Inl e \<Rightarrow> Inl e
         | Inr shs \<Rightarrow>
             let shareId = uuidv4 env;
                 st' = st\<lparr>party1Shares := (party1Shares st)(shareId @ '':0'' \<mapsto> shs ! 0),
                          party2Shares := (party2Shares st)(shareId @ '':1'' \<mapsto> shs ! 1)\<rparr>
             in Inr (\<lparr>sv_id = shareId,
                      sv_type = ''MPC_SHARE'',
                      shares = \<lparr>party1 = padStart 64 (CHR ''0'') (toString16 (shs ! 0)),
                                party2 = padStart 64 (CHR ''0'') (toString16 (shs ! 1))\<rparr>,
                      metadata = \<lparr>fieldName = name,
                                  timestamp = dateNow env,
                                  partyCount = 2,
                                  threshold = 2\<rparr>\<rparr>,
                     st'))"

text \<open>
  \<^verbatim>\<open>decode(secureValue)\<close>.  \<^verbatim>\<open>Number\<close> of a bigint is never NaN, so the result is
  always the number; the branch returning the decimal string is never taken.
\<close>

definition decode :: "SecureValue \<Rightarrow> error + plain" where
  "decode secureValue =
     (case BigIntHex (party1 (shares secureValue)) of
        Inl e \<Rightarrow> Inl e
      | Inr share1 \<Rightarrow>
          (case BigIntHex (party2 (shares secureValue)) of
             Inl e \<Rightarrow> Inl e
           | Inr share2 \<Rightarrow>
               (case reconstructSecret [share1, share2] of
                  Inl e \<Rightarrow> Inl e
                | Inr reconstructed \<Rightarrow> Inr (Num (toNumber reconstructed)))))"

definition encodeBoolean ::
  "(string \<Rightarrow> nat) \<Rightarrow> draws \<Rightarrow> bool \<Rightarrow> string \<Rightarrow> mpc_state
     \<Rightarrow> error + (SecureValue \<times> mpc_state)" where
  "encodeBoolean sha256 env value name st =
     encode sha256 env (Num (if value then 1 else 0)) name st"

text \<open>\<^verbatim>\<open>secureEquality(sv1, sv2)\<close>: the four shares are parsed in the source's order.\<close>

definition secureEquality ::
  "(string \<Rightarrow> nat) \<Rightarrow> draws \<Rightarrow> SecureValue \<Rightarrow> SecureValue \<Rightarrow> mpc_state
     \<Rightarrow> error + (SecureValue \<times> mpc_state)" where
  "secureEquality sha256 env sv1 sv2 st =
     (case BigIntHex (party1 (shares sv1)) of Inl e \<Rightarrow> Inl e | Inr a1 \<Rightarrow>
     (case BigIntHex (party2 (shares sv1)) of Inl e \<Rightarrow> Inl e | Inr a2 \<Rightarrow>
     (case BigIntHex (party1 (shares sv2)) of Inl e \<Rightarrow> Inl e | Inr b1 \<Rightarrow>
     (case BigIntHex (party2 (shares sv2)) of Inl e \<Rightarrow> Inl e | Inr b2 \<Rightarrow>
        let diff1 = trem (a1 - b1 + PRIME) PRIME;
            diff2 = trem (a2 - b2 + PRIME) PRIME;
            isEqual = (if diff1 = 0 \<and> diff2 = 0 then 1 else (0::int))
        in encodeBoolean sha256 env (isEqual = 1)
             (fieldName (metadata sv1) @ ''_eq_'' @ fieldName (metadata sv2)) st))))"

text \<open>
  \<^verbatim>\<open>secureAnd(...booleanShares)\<close>: the loop decodes each record in turn; a record
  that fails to decode ends the call with its error.
\<close>

fun secureAndLoop :: "SecureValue list \<Rightarrow> int \<Rightarrow> error + int" where
  "secureAndLoop [] result = Inr result"
| "secureAndLoop (share # rest) result =
     (case decode share of
        Inl e \<Rightarrow> Inl e
      | Inr value \<Rightarrow> secureAndLoop rest (if result = 1 \<and> value = Num 1 then 1 else 0))"

definition secureAnd ::
  "(string \<Rightarrow> nat) \<Rightarrow> draws \<Rightarrow> SecureValue list \<Rightarrow> mpc_state
     \<Rightarrow> error + (SecureValue \<times> mpc_state)" where
  "secureAnd sha256 env booleanShares st =
     (case secureAndLoop booleanShares 1 of
        Inl e \<Rightarrow> Inl e
      | Inr result \<Rightarrow> encodeBoolean sha256 env (result = 1) ''combined_result'' st)"

text \<open>\<^verbatim>\<open>secureAggregate(secureValues)\<close>: the running sum, then the split in two halves.\<close>

fun aggregateLoop :: "SecureValue list \<Rightarrow> int \<Rightarrow> error + int" where
  "aggregateLoop [] sumAcc = Inr sumAcc"
| "aggregateLoop (sv # rest) sumAcc =
     (case BigIntHex (party1 (shares sv)) of Inl e \<Rightarrow> Inl e | Inr share1 \<Rightarrow>
     (case BigIntHex (party2 (shares sv)) of Inl e \<Rightarrow> Inl e | Inr share2 \<Rightarrow>
        aggregateLoop rest (sumAcc + share1 + share2)))"

definition secureAggregate ::
  "draws \<Rightarrow> SecureValue list \<Rightarrow> mpc_state \<Rightarrow> error + (SecureValue \<times> mpc_state)" where
  "secureAggregate env secureValues st =
     (case aggregateLoop secureValues 0 of
        Inl e \<Rightarrow> Inl e
      | Inr sumAcc \<Rightarrow>
          let resultId = uuidv4 env;
              sum1 = tdiv sumAcc 2;
              sum2 = sumAcc - sum1;
              st' = st\<lparr>party1Shares := (party1Shares st)(resultId @ '':0'' \<mapsto> sum1),
                       party2Shares := (party2Shares st)(resultId @ '':1'' \<mapsto> sum2)\<rparr>
          in Inr (\<lparr>sv_id = resultId,
                   sv_type = ''MPC_SHARE'',
                   shares = \<lparr>party1 = padStart 64 (CHR ''0'') (toString16 sum1),
                             party2 = padStart 64 (CHR ''0'') (toString16 sum2)\<rparr>,
                   metadata = \<lparr>fieldName = ''aggregated_sum'',
                               timestamp = dateNow env,
                               partyCount = 2,
                               threshold = 2\<rparr>\<rparr>,
                  st'))"

section \<open>Composed calls and the notions of the specification\<close>

text \<open>
  \<open>secretValueOf\<close> is the first step of \<^verbatim>\<open>encode\<close> on its own: the field element the
  plaintext stands for.  \<open>carries r y1 y2\<close> says that the record holds the two shares as
  \<^verbatim>\<open>encode\<close> and \<^verbatim>\<open>secureAggregate\<close> write them.
\<close>

definition secretValueOf :: "(string \<Rightarrow> nat) \<Rightarrow> plain \<Rightarrow> int" where
  "secretValueOf sha256 v = (case v of Str s \<Rightarrow> trem (int (sha256 s)) PRIME | Num x \<Rightarrow> x)"

definition carries :: "SecureValue \<Rightarrow> int \<Rightarrow> int \<Rightarrow> bool" where
  "carries r y1 y2 =
     (party1 (shares r) = padStart 64 (CHR ''0'') (toString16 y1) \<and>
      party2 (shares r) = padStart 64 (CHR ''0'') (toString16 y2))"

text \<open>
  \<open>decoded\<close> is \<^verbatim>\<open>decode\<close> applied to the record an operation returned, and
  \<open>sharesOf\<close> reads the two shares of that record; a failed operation hands its error on.
\<close>

definition decoded :: "error + (SecureValue \<times> mpc_state) \<Rightarrow> error + plain" where
  "decoded res = (case res of Inl e \<Rightarrow> Inl e | Inr (r, st) \<Rightarrow> decode r)"

definition sharesOf :: "error + (SecureValue \<times> mpc_state) \<Rightarrow> error + (error + int) \<times> (error + int)" where
  "sharesOf res =
     (case res of
        Inl e \<Rightarrow> Inl e
      | Inr (r, st) \<Rightarrow> Inr (BigIntHex (party1 (shares r)), BigIntHex (party2 (shares r))))"

text \<open>
  \<^verbatim>\<open>secureEquality(encode(x, f), encode(y, f))\<close> and
  \<^verbatim>\<open>secureAggregate([encode(x, f), encode(y, f)])\<close>, the arguments evaluated from left to
  right, each call with its own draws and the state handed from one call to the next.
\<close>

definition secureEqualityOfEncoded ::
  "(string \<Rightarrow> nat) \<Rightarrow> draws \<Rightarrow> draws \<Rightarrow> draws \<Rightarrow> plain \<Rightarrow> plain \<Rightarrow> string \<Rightarrow> mpc_state
     \<Rightarrow> error + (SecureValue \<times> mpc_state)" where
  "secureEqualityOfEncoded sha256 env1 env2 env3 x y name st =
     (case encode sha256 env1 x name st of
        Inl e \<Rightarrow> Inl e
      | Inr (sv1, st1) \<Rightarrow>
          (case encode sha256 env2 y name st1 of
             Inl e \<Rightarrow> Inl e
           | Inr (sv2, st2) \<Rightarrow> secureEquality sha256 env3 sv1 sv2 st2))"

definition secureAggregateOfEncoded ::
  "(string \<Rightarrow> nat) \<Rightarrow> draws \<Rightarrow> draws \<Rightarrow> draws \<Rightarrow> plain \<Rightarrow> plain \<Rightarrow> string \<Rightarrow> mpc_state
     \<Rightarrow> error + (SecureValue \<times> mpc_state)" where
  "secureAggregateOfEncoded sha256 env1 env2 env3 x y name st =
     (case encode sha256 env1 x name st of
        Inl e \<Rightarrow> Inl e
      | Inr (sv1, st1) \<Rightarrow>
          (case encode sha256 env2 y name st1 of
             Inl e \<Rightarrow> Inl e
           | Inr (sv2, st2) \<Rightarrow> secureAggregate env3 [sv1, sv2] st2))"

text \<open>
  The validity of a record in the specification's words: both shares are field elements, and
  the two are the values at 1 and 2 of a polynomial \<open>secret + a x\<close> over the field, the
  secret being a field element.  The slope of the line through the two points is their
  difference, so the check computes it; \<open>consistent_iff_polynomial\<close> below shows that
  this is the same as the existence of a slope.
\<close>

definition sharesInField :: "SecureValue \<Rightarrow> bool" where
  "sharesInField r =
     (case BigIntHex (party1 (shares r)) of
        Inl e \<Rightarrow> False
      | Inr s1 \<Rightarrow>
          (case BigIntHex (party2 (shares r)) of
             Inl e \<Rightarrow> False
           | Inr s2 \<Rightarrow> 0 \<le> s1 \<and> s1 < PRIME \<and> 0 \<le> s2 \<and> s2 < PRIME))"

definition consistentWith :: "SecureValue \<Rightarrow> int \<Rightarrow> bool" where
  "consistentWith r secret =
     (case BigIntHex (party1 (shares r)) of
        Inl e \<Rightarrow> False
      | Inr s1 \<Rightarrow>
          (case BigIntHex (party2 (shares r)) of
             Inl e \<Rightarrow> False
           | Inr s2 \<Rightarrow>
               (let a = (s2 - s1) mod PRIME
                in 0 \<le> secret \<and> secret < PRIME
                   \<and> s1 = (secret + a) mod PRIME \<and> s2 = (secret + a * 2) mod PRIME)))"

definition validRecord :: "SecureValue \<Rightarrow> int \<Rightarrow> bool" where
  "validRecord r secret = (sharesInField r \<and> consistentWith r secret)"

definition validResult :: "error + (SecureValue \<times> mpc_state) \<Rightarrow> int \<Rightarrow> bool" where
  "validResult res secret =
     (case res of Inl e \<Rightarrow> False | Inr (r, st) \<Rightarrow> validRecord r secret)"

section \<open>Sample inputs\<close>

text \<open>
  A random source that returns the same value at every draw, the draws of one call, the
  state of a fresh framework object, and a record with given share strings.
\<close>

definition fixedDraw :: "nat \<Rightarrow> nat \<Rightarrow> nat" where
  "fixedDraw c i = c"

definition sampleDraws :: "nat \<Rightarrow> string \<Rightarrow> draws" where
  "sampleDraws c uid = \<lparr>randomBytes32 = fixedDraw c, uuidv4 = uid, dateNow = 1707326400000\<rparr>"

definition emptyState :: mpc_state where
  "emptyState = \<lparr>party1Shares = Map.empty, party2Shares = Map.empty\<rparr>"

definition sampleRecord :: "string \<Rightarrow> string \<Rightarrow> SecureValue" where
  "sampleRecord p1 p2 =
     \<lparr>sv_id = ''sample'', sv_type = ''MPC_SHARE'',
      shares = \<lparr>party1 = p1, party2 = p2\<rparr>,
      metadata = \<lparr>fieldName = ''age'', timestamp = 1707326400000, partyCount = 2, threshold = 2\<rparr>\<rparr>"

text \<open>
  The SHA-256 digest of the eight bytes \<^verbatim>\<open>AB12CD34\<close>,
  \<^verbatim>\<open>668c072603bbc3a89b6e2a67f878e29dbe33c020984d4928eda299e7cebe0adb\<close>, as an integer.
  It is the only entry of the table: no other string is digested below.
\<close>

definition digestTable :: "string \<Rightarrow> nat" where
  "digestTable s =
     (if s = ''AB12CD34''
      then 46383318481657724930234850934980960146006438523890288763363973865256437811931
      else 0)"

section \<open>Arithmetic of the field operations\<close>

lemma PRIME_pos: "0 < PRIME" by (simp add: PRIME_def)

lemma trem_nonneg: "0 \<le> a \<Longrightarrow> 0 < b \<Longrightarrow> trem a b = a mod b"
  by (cases "a = 0") (simp_all add: trem_def)

lemma trem_PRIME: "0 \<le> a \<Longrightarrow> trem a PRIME = a mod PRIME"
  by (simp add: trem_nonneg PRIME_pos)

lemma abs_trem_PRIME: "\<bar>trem a PRIME\<bar> < PRIME"
  using abs_trem_less [of PRIME a] PRIME_pos by simp

lemma tdiv_2: "0 \<le> t \<Longrightarrow> tdiv t 2 = t div 2"
  by (cases "t = 0") (simp_all add: tdiv_def)

lemma dvd_small: "PRIME dvd d \<Longrightarrow> \<bar>d\<bar> < PRIME \<Longrightarrow> d = 0"
  using zdvd_not_zless [of "\<bar>d\<bar>" PRIME] by (cases "d = 0") simp_all

lemma upt_0_2: "[0..<2] = [0, 1]"
  by (simp add: numeral_2_eq_2 upt_rec [of 0])

lemma upto_1_2: "[1..2] = [1, 2::int]"
  by (simp add: upto_rec1 [of 1] upto_rec1 [of 2] upto_rec1[of 3])

lemma upt_1_2: "[Suc 0..<2] = [Suc 0]"
  by (simp add: numeral_2_eq_2)

subsection \<open>The modular inverse and the Lagrange coefficients for two shares\<close>

lemma modInverse_1: "modInverse 1 = 1"
  unfolding modInverse_def
  apply (subst modInverseLoop.simps)
  apply (subst modInverseLoop.simps)
  apply (subst modInverseLoop.simps)
  apply (simp add: PRIME_def tdiv_def)
  done

lemma modInverse_P1: "modInverse (PRIME - 1) = PRIME - 1"
  unfolding modInverse_def
  apply (subst modInverseLoop.simps)
  apply (subst modInverseLoop.simps)
  apply (subst modInverseLoop.simps)
  apply (subst modInverseLoop.simps)
  apply (simp add: PRIME_def tdiv_def)
  done

lemma lagrangeParts_0: "lagrangeParts [1, 2] (Suc (Suc 0)) 0 = (PRIME - 2, PRIME - 1)"
  by (simp add: lagrangeParts_def upt_rec [of 0] normalize_def trem_def PRIME_def)

lemma lagrangeParts_1: "lagrangeParts [1, 2] (Suc (Suc 0)) (Suc 0) = (PRIME - 1, 1)"
  by (simp add: lagrangeParts_def upt_rec [of 0] normalize_def trem_def PRIME_def)

lemma reconstruct_pair:
  "reconstructSecret [y1, y2] =
     Inr (let secret = trem (trem (0 + trem (y1 * 2) PRIME) PRIME + trem (y2 * (PRIME - 1)) PRIME) PRIME
          in if secret < 0 then secret + PRIME else secret)"
proof -
  have l0: "trem ((PRIME - 2) * modInverse (PRIME - 1)) PRIME = 2"
    by (simp add: modInverse_P1) (simp add: PRIME_def trem_def)
  have l1: "trem ((PRIME - 1) * modInverse 1) PRIME = PRIME - 1"
    by (simp add: modInverse_1) (simp add: PRIME_def trem_def)
  show ?thesis
    by (simp add: reconstructSecret_def upt_rec [of 0] lagrangeParts_0 lagrangeParts_1 l0 l1 Let_def)
qed

lemma reconstruct_pair_nonneg:
  assumes "0 \<le> y1" "0 \<le> y2"
  shows "reconstructSecret [y1, y2] = Inr ((2 * y1 + (PRIME - 1) * y2) mod PRIME)"
proof -
  have p: "0 \<le> PRIME - 1" by (simp add: PRIME_def)
  have a: "trem (y1 * 2) PRIME = (y1 * 2) mod PRIME"
    using assms by (simp add: trem_PRIME)
  have b: "trem (y2 * (PRIME - 1)) PRIME = (y2 * (PRIME - 1)) mod PRIME"
    using assms p by (simp add: trem_PRIME)
  have c: "trem ((y1 * 2) mod PRIME) PRIME = (y1 * 2) mod PRIME"
    using PRIME_pos by (simp add: trem_PRIME)
  have d: "trem ((y1 * 2) mod PRIME + (y2 * (PRIME - 1)) mod PRIME) PRIME
             = ((y1 * 2) mod PRIME + (y2 * (PRIME - 1)) mod PRIME) mod PRIME"
    using PRIME_pos by (simp add: trem_PRIME)
  have e: "0 \<le> ((y1 * 2) mod PRIME + (y2 * (PRIME - 1)) mod PRIME) mod PRIME"
    using PRIME_pos by simp
  have "reconstructSecret [y1, y2] = Inr (((y1 * 2) mod PRIME + (y2 * (PRIME - 1)) mod PRIME) mod PRIME)"
    using e by (simp add: reconstruct_pair a b c d Let_def)
  also have "((y1 * 2) mod PRIME + (y2 * (PRIME - 1)) mod PRIME) mod PRIME
               = (2 * y1 + (PRIME - 1) * y2) mod PRIME"
    by (simp add: mod_add_eq mult.commute)
  finally show ?thesis .
qed

lemma reconstruct_total:
  assumes "2 \<le> length shs"
  shows "\<exists>v. reconstructSecret shs = Inr v \<and> 0 \<le> v \<and> v < PRIME"
proof -
  obtain m where m: "length shs = Suc m"
    using assms by (cases "length shs") auto
  define step where "step = (\<lambda>i secret.
      let (numerator, denominator) =
            lagrangeParts (map (\<lambda>i. int i + 1) [0..<length shs]) (length shs) i;
          lagrange = trem (numerator * modInverse denominator) PRIME;
          term = trem ((shs ! i) * lagrange) PRIME
      in trem (secret + term) PRIME)"
  have "\<exists>w. step i secret = trem w PRIME" for i secret
    by (auto simp: step_def Let_def split: prod.splits)
  then obtain w where "fold step [0..<length shs] 0 = trem w PRIME"
    unfolding m by (simp del: upt_Suc add: upt_Suc_append) blast
  then have "\<bar>fold step [0..<length shs] 0\<bar> < PRIME"
    by (simp add: abs_trem_PRIME)
  then show ?thesis
    using assms by (auto simp: reconstructSecret_def Let_def step_def)
qed

subsection \<open>The two shares of a secret\<close>

lemma evalShare_pair:
  "evalShare [s, a] x = trem (trem (0 + trem (s * 1) PRIME) PRIME + trem (a * x) PRIME) PRIME"
  by (simp add: evalShare_def upt_0_2 bigintPow_def Let_def)

lemma splitSecret_2_2:
  "splitSecret rnd s 2 2 =
     Inr [evalShare [s, trem (int (rnd (Suc 0))) PRIME] 1,
          evalShare [s, trem (int (rnd (Suc 0))) PRIME] 2]"
  by (simp add: splitSecret_def coefficientsOf_def upt_1_2 upto_1_2 Let_def)

lemma evalShare_nonneg:
  assumes "0 \<le> s" "0 \<le> a" "0 \<le> x"
  shows "evalShare [s, a] x = (s + a * x) mod PRIME"
proof -
  have "trem (s * 1) PRIME = s mod PRIME"
    using assms by (simp add: trem_PRIME)
  moreover have "trem (0 + s mod PRIME) PRIME = s mod PRIME"
    using PRIME_pos by (simp add: trem_PRIME)
  moreover have "trem (a * x) PRIME = (a * x) mod PRIME"
    using assms by (simp add: trem_PRIME)
  moreover have "trem (s mod PRIME + (a * x) mod PRIME) PRIME = (s mod PRIME + (a * x) mod PRIME) mod PRIME"
    using PRIME_pos by (simp add: trem_PRIME)
  ultimately show ?thesis
    by (simp add: evalShare_pair mod_add_eq)
qed

lemma interpolate_at_0:
  "(2 * ((s + a) mod PRIME) + (PRIME - 1) * ((s + a * 2) mod PRIME)) mod PRIME = s mod PRIME"
proof -
  have "(2 * ((s + a) mod PRIME) + (PRIME - 1) * ((s + a * 2) mod PRIME)) mod PRIME
          = (2 * (s + a) + (PRIME - 1) * (s + a * 2)) mod PRIME"
    by (metis mod_add_eq mod_mult_right_eq)
  also have "2 * (s + a) + (PRIME - 1) * (s + a * 2) = s + PRIME * (s + a * 2)"
    by (simp add: algebra_simps)
  also have "(s + PRIME * (s + a * 2)) mod PRIME = s mod PRIME"
    by simp
  finally show ?thesis .
qed

lemma shares_equal_iff:
  assumes "0 \<le> x" "x < PRIME" "0 \<le> y" "y < PRIME" "0 \<le> a" "a < PRIME" "0 \<le> b" "b < PRIME"
  shows "(x + a) mod PRIME = (y + b) mod PRIME \<and> (x + a * 2) mod PRIME = (y + b * 2) mod PRIME
           \<longleftrightarrow> x = y \<and> a = b"
proof
  assume h: "(x + a) mod PRIME = (y + b) mod PRIME \<and> (x + a * 2) mod PRIME = (y + b * 2) mod PRIME"
  then have d1: "PRIME dvd (x + a) - (y + b)" and d2: "PRIME dvd (x + a * 2) - (y + b * 2)"
    by (simp_all add: mod_eq_dvd_iff)
  have "PRIME dvd ((x + a * 2) - (y + b * 2)) - ((x + a) - (y + b))"
    using d2 d1 by (rule dvd_diff)
  then have "PRIME dvd a - b" by (simp add: algebra_simps)
  moreover have "\<bar>a - b\<bar> < PRIME" using assms by linarith
  ultimately have "a - b = 0" by (rule dvd_small)
  then have ab: "a = b" by simp
  then have "PRIME dvd x - y" using d1 by simp
  moreover have "\<bar>x - y\<bar> < PRIME" using assms by linarith
  ultimately have "x - y = 0" by (rule dvd_small)
  then have "x = y" by simp
  with ab show "x = y \<and> a = b" by simp
next
  assume "x = y \<and> a = b"
  then show "(x + a) mod PRIME = (y + b) mod PRIME \<and> (x + a * 2) mod PRIME = (y + b * 2) mod PRIME"
    by simp
qed

lemma diff_zero_iff:
  assumes "0 \<le> a" "a < PRIME" "0 \<le> b" "b < PRIME"
  shows "trem (a - b + PRIME) PRIME = 0 \<longleftrightarrow> a = b"
proof -
  have "trem (a - b + PRIME) PRIME = (a - b + PRIME) mod PRIME"
    using assms by (simp add: trem_PRIME)
  also have "\<dots> = 0 \<longleftrightarrow> PRIME dvd a - b"
    by (simp add: mod_eq_0_iff_dvd)
  also have "PRIME dvd a - b \<longleftrightarrow> a = b"
  proof
    assume "PRIME dvd a - b"
    moreover have "\<bar>a - b\<bar> < PRIME" using assms by linarith
    ultimately have "a - b = 0" by (rule dvd_small)
    then show "a = b" by simp
  qed simp
  finally show ?thesis .
qed

subsection \<open>Hexadecimal strings\<close>

lemma less_16_cases:
  "(d::nat) < 16 \<Longrightarrow>
     d = 0 \<or> d = 1 \<or> d = 2 \<or> d = 3 \<or> d = 4 \<or> d = 5 \<or> d = 6 \<or> d = 7 \<or>
     d = 8 \<or> d = 9 \<or> d = 10 \<or> d = 11 \<or> d = 12 \<or> d = 13 \<or> d = 14 \<or> d = 15"
  by arith

lemma hexValue_digitChar: "d < 16 \<Longrightarrow> hexValue (digitChar d) = Some d"
  using less_16_cases [of d] by (auto simp: hexValue_def digitChar_def)

lemma digitChar_not_space: "d < 16 \<Longrightarrow> \<not> isWhiteSpace (digitChar d)"
  using less_16_cases [of d] by (auto simp: isWhiteSpace_def digitChar_def)

lemma parseDigits_append:
  "parseDigits (xs @ ys) acc =
     (case parseDigits xs acc of None \<Rightarrow> None | Some a \<Rightarrow> parseDigits ys a)"
  by (induction xs arbitrary: acc) (auto split: option.splits)

lemma parseDigits_toHex: "parseDigits (toHex n) 0 = Some n"
proof (induction n rule: toHex.induct)
  case (1 n)
  show ?case
  proof (cases "n < 16")
    case True
    then show ?thesis
      by (subst toHex.simps) (simp add: hexValue_digitChar)
  next
    case False
    then have "parseDigits (toHex (n div 16)) 0 = Some (n div 16)"
      using "1.IH" by simp
    moreover have "hexValue (digitChar (n mod 16)) = Some (n mod 16)"
      by (simp add: hexValue_digitChar)
    ultimately show ?thesis
      using False by (subst toHex.simps) (simp add: parseDigits_append)
  qed
qed

lemma parseDigits_zeros: "parseDigits (replicate k (CHR ''0'') @ s) 0 = parseDigits s 0"
  by (induction k) (simp_all add: hexValue_def)

lemma toHex_last: "toHex n \<noteq> [] \<and> \<not> isWhiteSpace (last (toHex n))"
  by (subst toHex.simps, subst (2) toHex.simps) (simp add: digitChar_not_space)

lemma trimEnd_snoc: "\<not> isWhiteSpace c \<Longrightarrow> trimEnd (xs @ [c]) = xs @ [c]"
  by (simp add: trimEnd_def)

lemma trimEnd_id: "s \<noteq> [] \<Longrightarrow> \<not> isWhiteSpace (last s) \<Longrightarrow> trimEnd s = s"
  using trimEnd_snoc [of "last s" "butlast s"] by simp

lemma BigIntHex_padded:
  assumes "0 \<le> y"
  shows "BigIntHex (padStart 64 (CHR ''0'') (toString16 y)) = Inr y"
proof -
  let ?s = "replicate (64 - length (toHex (nat y))) (CHR ''0'') @ toHex (nat y)"
  have s: "padStart 64 (CHR ''0'') (toString16 y) = ?s"
    using assms by (simp add: padStart_def toString16_def)
  have "?s \<noteq> []" "\<not> isWhiteSpace (last ?s)"
    using toHex_last [of "nat y"] by simp_all
  then have "trimEnd ?s = ?s"
    by (rule trimEnd_id)
  moreover have "parseDigits ?s 0 = Some (nat y)"
    by (simp add: parseDigits_zeros parseDigits_toHex)
  ultimately show ?thesis
    using assms toHex_last [of "nat y"] by (simp add: s BigIntHex_def)
qed

lemma BigIntHex_0a: "BigIntHex ''0a'' = Inr 10"
  by (simp add: BigIntHex_def trimEnd_def isWhiteSpace_def hexValue_def)

lemma BigIntHex_0f: "BigIntHex ''0f'' = Inr 15"
  by (simp add: BigIntHex_def trimEnd_def isWhiteSpace_def hexValue_def)

subsection \<open>Conversion to a number\<close>

lemma bitLength_bounds: "0 < k \<Longrightarrow> 2 ^ (k - 1) \<le> n \<Longrightarrow> n < 2 ^ k \<Longrightarrow> bitLength n = k"
proof (induction n arbitrary: k rule: bitLength.induct)
  case (1 n)
  have "0 < (2::nat) ^ (k - 1)" by simp
  with "1.prems" have n: "n \<noteq> 0" by linarith
  show ?case
  proof (cases "k = 1")
    case True
    with "1.prems" have "n = 1" by simp
    then show ?thesis using True
      by (simp add: bitLength.simps [of "Suc 0"] bitLength.simps [of 0])
  next
    case False
    with "1.prems" obtain j where k: "k = Suc j" "0 < j" by (cases k) auto
    have "2 ^ (j - 1) \<le> n div 2"
    proof -
      have "2 ^ (j - 1) * 2 \<le> n" using "1.prems" k by (cases j) simp_all
      then show ?thesis by simp
    qed
    moreover have "n div 2 < 2 ^ j" using "1.prems" k by simp
    ultimately have "bitLength (n div 2) = j"
      using "1.IH" [OF n, of j] k by simp
    then show ?thesis using n k by (subst bitLength.simps) simp
  qed
qed

lemma bitLength_le: "n < 2 ^ k \<Longrightarrow> bitLength n \<le> k"
proof (induction n arbitrary: k rule: bitLength.induct)
  case (1 n)
  show ?case
  proof (cases "n = 0")
    case True
    then show ?thesis by (simp add: bitLength.simps [of 0])
  next
    case False
    with "1.prems" obtain j where k: "k = Suc j" by (cases k) auto
    then have "n div 2 < 2 ^ j" using "1.prems" by simp
    then have "bitLength (n div 2) \<le> j"
      using "1.IH" [OF False] by simp
    then show ?thesis using False k by (subst bitLength.simps) simp
  qed
qed

lemma toNumber_small: "0 \<le> v \<Longrightarrow> v < 2 ^ 53 \<Longrightarrow> toNumber v = v"
proof -
  assume v: "0 \<le> v" "v < 2 ^ 53"
  then have "nat v < 2 ^ 53" by (simp add: nat_less_iff)
  then have "bitLength (nat v) \<le> 53" by (rule bitLength_le)
  then show ?thesis using v by (simp add: toNumber_def roundToDouble_def)
qed

lemma toNumber_0: "toNumber 0 = 0"
  by (simp add: toNumber_small)

lemma toNumber_1: "toNumber 1 = 1"
  by (simp add: toNumber_small)

lemma toNumber_P1: "toNumber (PRIME - 1) = 2 ^ 255"
proof -
  have "bitLength (nat (PRIME - 1)) = 255"
    by (rule bitLength_bounds) (simp_all add: PRIME_def)
  then show ?thesis
    by (simp add: toNumber_def roundToDouble_def Let_def) (simp add: PRIME_def)
qed

section \<open>Records and their shares\<close>

lemma secretValueOf_Str: "secretValueOf H (Str s) = int (H s) mod PRIME"
  by (simp add: secretValueOf_def trem_PRIME)

lemma encode_carries:
  "\<exists>r st'. encode H env v name st = Inr (r, st')
      \<and> carries r (evalShare [secretValueOf H v, trem (int (randomBytes32 env (Suc 0))) PRIME] 1)
                   (evalShare [secretValueOf H v, trem (int (randomBytes32 env (Suc 0))) PRIME] 2)
      \<and> fieldName (metadata r) = name"
  by (simp add: encode_def splitSecret_2_2 carries_def secretValueOf_def Let_def)

lemma carries_parse:
  assumes "carries r y1 y2" "0 \<le> y1" "0 \<le> y2"
  shows "BigIntHex (party1 (shares r)) = Inr y1" "BigIntHex (party2 (shares r)) = Inr y2"
  using assms by (simp_all add: carries_def BigIntHex_padded)

lemma decode_carries:
  assumes "carries r y1 y2" "0 \<le> y1" "0 \<le> y2"
  shows "decode r = Inr (Num (toNumber ((2 * y1 + (PRIME - 1) * y2) mod PRIME)))"
  using assms by (simp add: decode_def carries_parse reconstruct_pair_nonneg)

lemma encode_nonneg_carries:
  assumes "0 \<le> secretValueOf H v"
  shows "\<exists>r st'. encode H env v name st = Inr (r, st')
      \<and> carries r ((secretValueOf H v + int (randomBytes32 env 1) mod PRIME) mod PRIME)
                   ((secretValueOf H v + int (randomBytes32 env 1) mod PRIME * 2) mod PRIME)
      \<and> fieldName (metadata r) = name"
proof -
  have "0 \<le> trem (int (randomBytes32 env (Suc 0))) PRIME"
       "trem (int (randomBytes32 env (Suc 0))) PRIME = int (randomBytes32 env 1) mod PRIME"
    using PRIME_pos by (simp_all add: trem_PRIME)
  then show ?thesis
    using encode_carries [of H env v name st] assms
    by (simp add: evalShare_nonneg)
qed

lemma decoded_encode:
  assumes "0 \<le> secretValueOf H v"
  shows "decoded (encode H env v name st) = Inr (Num (toNumber (secretValueOf H v mod PRIME)))"
proof -
  let ?s = "secretValueOf H v" and ?a = "int (randomBytes32 env 1) mod PRIME"
  obtain r st' where r: "encode H env v name st = Inr (r, st')"
    "carries r ((?s + ?a) mod PRIME) ((?s + ?a * 2) mod PRIME)"
    using encode_nonneg_carries [OF assms, of env name st] by blast
  have "decode r = Inr (Num (toNumber ((2 * ((?s + ?a) mod PRIME) + (PRIME - 1) * ((?s + ?a * 2) mod PRIME)) mod PRIME)))"
    using r(2) PRIME_pos by (intro decode_carries) simp_all
  then show ?thesis
    by (simp add: r(1) decoded_def interpolate_at_0)
qed

lemma decoded_encode_Str:
  "decoded (encode H env (Str s) name st) = Inr (Num (toNumber (int (H s) mod PRIME)))"
proof -
  have "0 \<le> secretValueOf H (Str s)"
    using PRIME_pos by (simp add: secretValueOf_Str)
  then have "decoded (encode H env (Str s) name st)
               = Inr (Num (toNumber (secretValueOf H (Str s) mod PRIME)))"
    by (rule decoded_encode)
  then show ?thesis
    by (simp add: secretValueOf_Str)
qed

lemma decoded_encodeBoolean:
  "decoded (encodeBoolean H env b name st) = Inr (Num (if b then 1 else 0))"
proof -
  have "decoded (encode H env (Num (if b then 1 else 0)) name st)
          = Inr (Num (toNumber (secretValueOf H (Num (if b then 1 else 0)) mod PRIME)))"
    by (rule decoded_encode) (simp add: secretValueOf_def)
  then show ?thesis
    by (simp add: encodeBoolean_def secretValueOf_def toNumber_0 toNumber_1 PRIME_def)
qed

lemma encodeBoolean_decodes:
  assumes "encodeBoolean H env b name st = Inr (r, st')"
  shows "decode r = Inr (Num (if b then 1 else 0))"
  using decoded_encodeBoolean [of H env b name st] assms by (simp add: decoded_def)

lemma encodeBoolean_returns: "\<exists>r st'. encodeBoolean H env b name st = Inr (r, st')"
  using encode_carries [of H env "Num (if b then 1 else 0)" name st]
  by (auto simp: encodeBoolean_def)

subsection \<open>Comparison\<close>

lemma secureEquality_carries:
  assumes "carries sv1 a1 a2" "carries sv2 b1 b2"
    and "0 \<le> a1" "a1 < PRIME" "0 \<le> a2" "a2 < PRIME"
    and "0 \<le> b1" "b1 < PRIME" "0 \<le> b2" "b2 < PRIME"
  shows "secureEquality H env sv1 sv2 st =
           encodeBoolean H env (a1 = b1 \<and> a2 = b2)
             (fieldName (metadata sv1) @ ''_eq_'' @ fieldName (metadata sv2)) st"
proof -
  have p: "BigIntHex (party1 (shares sv1)) = Inr a1" "BigIntHex (party2 (shares sv1)) = Inr a2"
          "BigIntHex (party1 (shares sv2)) = Inr b1" "BigIntHex (party2 (shares sv2)) = Inr b2"
    using assms by (simp_all add: carries_parse)
  have d: "trem (a1 - b1 + PRIME) PRIME = 0 \<longleftrightarrow> a1 = b1"
          "trem (a2 - b2 + PRIME) PRIME = 0 \<longleftrightarrow> a2 = b2"
    using assms by (simp_all add: diff_zero_iff)
  show ?thesis
    by (auto simp: secureEquality_def p d Let_def)
qed

lemma secureEquality_boolean:
  assumes "secureEquality H env sv1 sv2 st = Inr (r, st')"
  shows "decode r = Inr (Num 0) \<or> decode r = Inr (Num 1)"
proof -
  from assms obtain b name where "encodeBoolean H env b name st = Inr (r, st')"
    by (auto simp: secureEquality_def Let_def split: sum.splits)
  then show ?thesis
    using encodeBoolean_decodes [of H env b name st r st'] by (cases b) simp_all
qed

lemma secureAnd_boolean:
  assumes "secureAnd H env svs st = Inr (r, st')"
  shows "decode r = Inr (Num 0) \<or> decode r = Inr (Num 1)"
proof -
  from assms obtain b where "encodeBoolean H env b ''combined_result'' st = Inr (r, st')"
    by (auto simp: secureAnd_def split: sum.splits)
  then show ?thesis
    using encodeBoolean_decodes [of H env b _ st r st'] by (cases b) simp_all
qed

lemma secureEquality_sample_returns:
  "\<exists>r st'. secureEquality H env (sampleRecord ''0a'' ''0f'') (sampleRecord ''0a'' ''0f'') st = Inr (r, st')"
  using encodeBoolean_returns
  by (simp add: secureEquality_def sampleRecord_def BigIntHex_0a BigIntHex_0f Let_def)

lemma secureAnd_sample_returns:
  "\<exists>r st'. secureAnd H env [] st = Inr (r, st')"
  using encodeBoolean_returns by (simp add: secureAnd_def)

text \<open>
  What \<^verbatim>\<open>secureEquality\<close> answers on two fresh encodings: it compares the shares, so
  the answer is 1 only when the plaintexts agree and the two calls drew the same coefficient.
\<close>

lemma secureEquality_of_encoded:
  assumes "0 \<le> x" "x < PRIME" "0 \<le> y" "y < PRIME"
  shows "decoded (secureEqualityOfEncoded H env1 env2 env3 (Num x) (Num y) name st)
           = Inr (Num (if x = y \<and> int (randomBytes32 env1 1) mod PRIME = int (randomBytes32 env2 1) mod PRIME
                       then 1 else 0))"
proof -
  let ?a = "int (randomBytes32 env1 1) mod PRIME" and ?b = "int (randomBytes32 env2 1) mod PRIME"
  have ab: "0 \<le> ?a" "?a < PRIME" "0 \<le> ?b" "?b < PRIME"
    using PRIME_pos by simp_all
  obtain r1 st1 where r1: "encode H env1 (Num x) name st = Inr (r1, st1)"
      "carries r1 ((x + ?a) mod PRIME) ((x + ?a * 2) mod PRIME)"
    using encode_nonneg_carries [of H "Num x" env1 name st] assms
    by (auto simp: secretValueOf_def)
  obtain r2 st2 where r2: "encode H env2 (Num y) name st1 = Inr (r2, st2)"
      "carries r2 ((y + ?b) mod PRIME) ((y + ?b * 2) mod PRIME)"
    using encode_nonneg_carries [of H "Num y" env2 name st1] assms
    by (auto simp: secretValueOf_def)
  have "secureEquality H env3 r1 r2 st2 =
          encodeBoolean H env3 ((x + ?a) mod PRIME = (y + ?b) mod PRIME
                                \<and> (x + ?a * 2) mod PRIME = (y + ?b * 2) mod PRIME)
            (fieldName (metadata r1) @ ''_eq_'' @ fieldName (metadata r2)) st2"
    using r1(2) r2(2) PRIME_pos by (intro secureEquality_carries) simp_all
  also have "((x + ?a) mod PRIME = (y + ?b) mod PRIME
                \<and> (x + ?a * 2) mod PRIME = (y + ?b * 2) mod PRIME) = (x = y \<and> ?a = ?b)"
    using assms ab by (intro shares_equal_iff) simp_all
  finally show ?thesis
    by (simp add: secureEqualityOfEncoded_def r1(1) r2(1) decoded_encodeBoolean)
qed

subsection \<open>Aggregation\<close>

lemma secureAggregate_pair:
  assumes "carries sv1 a1 a2" "carries sv2 b1 b2" "0 \<le> a1" "0 \<le> a2" "0 \<le> b1" "0 \<le> b2"
  shows "\<exists>r st'. secureAggregate env [sv1, sv2] st = Inr (r, st')
           \<and> carries r ((a1 + a2 + b1 + b2) div 2) (a1 + a2 + b1 + b2 - (a1 + a2 + b1 + b2) div 2)"
proof -
  have p: "BigIntHex (party1 (shares sv1)) = Inr a1" "BigIntHex (party2 (shares sv1)) = Inr a2"
          "BigIntHex (party1 (shares sv2)) = Inr b1" "BigIntHex (party2 (shares sv2)) = Inr b2"
    using assms by (simp_all add: carries_parse)
  have "aggregateLoop [sv1, sv2] 0 = Inr (a1 + a2 + b1 + b2)"
    by (simp add: p)
  moreover have "tdiv (a1 + a2 + b1 + b2) 2 = (a1 + a2 + b1 + b2) div 2"
    using assms by (intro tdiv_2) simp
  ultimately show ?thesis
    by (simp add: secureAggregate_def carries_def Let_def)
qed

lemma aggregate_of_encoded:
  assumes "0 \<le> x" "0 \<le> y"
    and "t = (x + int (randomBytes32 env1 1) mod PRIME) mod PRIME
           + (x + int (randomBytes32 env1 1) mod PRIME * 2) mod PRIME
           + (y + int (randomBytes32 env2 1) mod PRIME) mod PRIME
           + (y + int (randomBytes32 env2 1) mod PRIME * 2) mod PRIME"
  shows "sharesOf (secureAggregateOfEncoded H env1 env2 env3 (Num x) (Num y) name st)
           = Inr (Inr (t div 2), Inr (t - t div 2))
         \<and> decoded (secureAggregateOfEncoded H env1 env2 env3 (Num x) (Num y) name st)
           = Inr (Num (toNumber ((2 * (t div 2) + (PRIME - 1) * (t - t div 2)) mod PRIME)))"
proof -
  let ?a = "int (randomBytes32 env1 1) mod PRIME" and ?b = "int (randomBytes32 env2 1) mod PRIME"
  obtain r1 st1 where r1: "encode H env1 (Num x) name st = Inr (r1, st1)"
      "carries r1 ((x + ?a) mod PRIME) ((x + ?a * 2) mod PRIME)"
    using encode_nonneg_carries [of H "Num x" env1 name st] assms
    by (auto simp: secretValueOf_def)
  obtain r2 st2 where r2: "encode H env2 (Num y) name st1 = Inr (r2, st2)"
      "carries r2 ((y + ?b) mod PRIME) ((y + ?b * 2) mod PRIME)"
    using encode_nonneg_carries [of H "Num y" env2 name st1] assms
    by (auto simp: secretValueOf_def)
  have nn: "0 \<le> (x + ?a) mod PRIME" "0 \<le> (x + ?a * 2) mod PRIME"
           "0 \<le> (y + ?b) mod PRIME" "0 \<le> (y + ?b * 2) mod PRIME"
    using PRIME_pos by simp_all
  obtain r st' where r: "secureAggregate env3 [r1, r2] st2 = Inr (r, st')"
      "carries r (t div 2) (t - t div 2)"
    using secureAggregate_pair [OF r1(2) r2(2) nn, of env3 st2] assms(3) by auto
  have t: "0 \<le> t" using nn assms(3) by linarith
  then have h: "0 \<le> t div 2" "0 \<le> t - t div 2" by linarith+
  have "decode r = Inr (Num (toNumber ((2 * (t div 2) + (PRIME - 1) * (t - t div 2)) mod PRIME)))"
    using r(2) h by (rule decode_carries)
  moreover have "BigIntHex (party1 (shares r)) = Inr (t div 2)" "BigIntHex (party2 (shares r)) = Inr (t - t div 2)"
    using r(2) h by (simp_all add: carries_parse)
  ultimately show ?thesis
    by (simp add: secureAggregateOfEncoded_def r1(1) r2(1) r(1) decoded_def sharesOf_def)
qed

subsection \<open>Validity\<close>

lemma valid_carries:
  assumes "carries r ((s + a) mod PRIME) ((s + a * 2) mod PRIME)" "0 \<le> s" "s < PRIME"
  shows "validRecord r s"
proof -
  let ?s1 = "(s + a) mod PRIME" and ?s2 = "(s + a * 2) mod PRIME"
  have nn: "0 \<le> ?s1" "?s1 < PRIME" "0 \<le> ?s2" "?s2 < PRIME"
    using PRIME_pos by simp_all
  have p: "BigIntHex (party1 (shares r)) = Inr ?s1" "BigIntHex (party2 (shares r)) = Inr ?s2"
    using assms(1) nn by (simp_all add: carries_parse)
  have "(?s2 - ?s1) mod PRIME = ((s + a * 2) - (s + a)) mod PRIME"
    by (simp add: mod_diff_eq)
  then have a: "(?s2 - ?s1) mod PRIME = a mod PRIME"
    by simp
  have "(s + a mod PRIME) mod PRIME = ?s1"
    by (simp add: mod_add_right_eq)
  moreover have "(s + a mod PRIME * 2) mod PRIME = ?s2"
    by (metis mod_add_right_eq mod_mult_left_eq)
  ultimately show ?thesis
    using nn assms(2,3) by (simp add: validRecord_def sharesInField_def consistentWith_def p a Let_def)
qed

lemma consistent_iff_polynomial:
  assumes "BigIntHex (party1 (shares r)) = Inr s1" "BigIntHex (party2 (shares r)) = Inr s2"
    and "0 \<le> secret" "secret < PRIME"
  shows "consistentWith r secret \<longleftrightarrow>
           (\<exists>a. 0 \<le> a \<and> a < PRIME \<and> s1 = (secret + a) mod PRIME \<and> s2 = (secret + a * 2) mod PRIME)"
proof
  assume "consistentWith r secret"
  then have "s1 = (secret + (s2 - s1) mod PRIME) mod PRIME \<and> s2 = (secret + (s2 - s1) mod PRIME * 2) mod PRIME"
    using assms by (simp add: consistentWith_def Let_def)
  moreover have "0 \<le> (s2 - s1) mod PRIME" "(s2 - s1) mod PRIME < PRIME"
    using PRIME_pos by simp_all
  ultimately show "\<exists>a. 0 \<le> a \<and> a < PRIME \<and> s1 = (secret + a) mod PRIME \<and> s2 = (secret + a * 2) mod PRIME"
    by blast
next
  assume "\<exists>a. 0 \<le> a \<and> a < PRIME \<and> s1 = (secret + a) mod PRIME \<and> s2 = (secret + a * 2) mod PRIME"
  then obtain a where a: "0 \<le> a" "a < PRIME" "s1 = (secret + a) mod PRIME" "s2 = (secret + a * 2) mod PRIME"
    by blast
  have "(s2 - s1) mod PRIME = ((secret + a * 2) - (secret + a)) mod PRIME"
    unfolding a(3,4) by (simp add: mod_diff_eq)
  then have "(s2 - s1) mod PRIME = a"
    using a(1,2) by simp
  then show "consistentWith r secret"
    using assms a by (simp add: consistentWith_def Let_def)
qed

lemma encode_Num_valid:
  assumes "0 \<le> n" "n < PRIME"
  shows "validResult (encode H env (Num n) name st) n"
proof -
  obtain r st' where r: "encode H env (Num n) name st = Inr (r, st')"
      "carries r ((n + int (randomBytes32 env 1) mod PRIME) mod PRIME)
                 ((n + int (randomBytes32 env 1) mod PRIME * 2) mod PRIME)"
    using encode_nonneg_carries [of H "Num n" env name st] assms
    by (auto simp: secretValueOf_def)
  from r(2) assms have "validRecord r n" by (rule valid_carries)
  then show ?thesis by (simp add: validResult_def r(1))
qed

lemma encode_Str_valid: "validResult (encode H env (Str s) name st) (int (H s) mod PRIME)"
proof -
  let ?v = "int (H s) mod PRIME"
  have v: "0 \<le> ?v" "?v < PRIME" using PRIME_pos by simp_all
  obtain r st' where r: "encode H env (Str s) name st = Inr (r, st')"
      "carries r ((?v + int (randomBytes32 env 1) mod PRIME) mod PRIME)
                 ((?v + int (randomBytes32 env 1) mod PRIME * 2) mod PRIME)"
    using encode_nonneg_carries [of H "Str s" env name st] v
    by (auto simp: secretValueOf_Str)
  from r(2) v have "validRecord r ?v" by (rule valid_carries)
  then show ?thesis by (simp add: validResult_def r(1))
qed

lemma encodeBoolean_valid:
  assumes "encodeBoolean H env b name st = Inr (r, st')"
  shows "validRecord r (if b then 1 else 0)"
proof -
  have "validResult (encode H env (Num (if b then 1 else 0)) name st) (if b then 1 else 0)"
    by (rule encode_Num_valid) (simp_all add: PRIME_def)
  then show ?thesis
    using assms by (simp add: encodeBoolean_def validResult_def)
qed

section \<open>Properties of the secret sharing\<close>

text \<open>
  C1.  For every secret \<open>s\<close> with \<open>0 \<le> s < PRIME\<close> and every value drawn for the
  degree-1 coefficient, \<open>splitSecret s 2 2\<close> returns the evaluations at 1 and 2 of the
  polynomial \<open>s + a x\<close> (\<open>a\<close> the draw reduced modulo \<open>PRIME\<close>), and
  \<open>reconstructSecret\<close> applied to these two shares returns exactly \<open>s\<close>.
\<close>

theorem split_then_reconstruct:
  assumes "0 \<le> s" and "s < PRIME"
  shows "splitSecret rnd s 2 2 =
           Inr [(s + int (rnd 1) mod PRIME) mod PRIME,
                (s + int (rnd 1) mod PRIME * 2) mod PRIME]
         \<and> reconstructSecret [(s + int (rnd 1) mod PRIME) mod PRIME,
                               (s + int (rnd 1) mod PRIME * 2) mod PRIME] = Inr s"
proof -
  let ?a = "int (rnd 1) mod PRIME"
  have a: "trem (int (rnd (Suc 0))) PRIME = ?a" "0 \<le> ?a"
    using PRIME_pos by (simp_all add: trem_PRIME)
  have split: "splitSecret rnd s 2 2 = Inr [(s + ?a) mod PRIME, (s + ?a * 2) mod PRIME]"
    using assms a by (simp add: splitSecret_2_2 evalShare_nonneg)
  have "reconstructSecret [(s + ?a) mod PRIME, (s + ?a * 2) mod PRIME]
          = Inr ((2 * ((s + ?a) mod PRIME) + (PRIME - 1) * ((s + ?a * 2) mod PRIME)) mod PRIME)"
    using PRIME_pos by (simp add: reconstruct_pair_nonneg)
  also have "\<dots> = Inr (s mod PRIME)"
    by (simp only: interpolate_at_0)
  also have "s mod PRIME = s"
    using assms by simp
  finally show ?thesis
    using split by simp
qed

text \<open>
  The same at the secret 42 with the draw 7.
\<close>

theorem split_then_reconstruct_witness:
  "(0::int) \<le> 42 \<and> 42 < PRIME
   \<and> splitSecret (fixedDraw 7) 42 2 2 = Inr [49, 56] \<and> reconstructSecret [49, 56] = Inr 42"
  using split_then_reconstruct [of 42 "fixedDraw 7"]
  by (simp add: PRIME_def fixedDraw_def)

text \<open>
  C4.  The constant \<open>PRIME\<close> is \<open>2 ^ 255 - 19\<close>, not the secp256k1 field prime
  \<open>2 ^ 256 - 2 ^ 32 - 977\<close> that its comment names.  The number \<open>2 ^ 255\<close>, a double
  and a field element of the secp256k1 field, is encoded and decoded as 19.
\<close>

theorem PRIME_is_not_secp256k1:
  "PRIME = 2 ^ 255 - 19 \<and> PRIME \<noteq> 2 ^ 256 - 2 ^ 32 - 977
   \<and> isNumberValue (2 ^ 255) \<and> 2 ^ 255 < (2 ^ 256 - 2 ^ 32 - 977 :: int)
   \<and> decoded (encode digestTable (sampleDraws 7 ''id-1'') (Num (2 ^ 255)) ''f'' emptyState)
       = Inr (Num 19)"
proof -
  have p: "PRIME = 2 ^ 255 - 19"
    by (simp add: PRIME_def)
  have "bitLength (nat (2 ^ 255)) = 256"
    by (rule bitLength_bounds) simp_all
  then have n: "isNumberValue (2 ^ 255)"
    by (simp add: isNumberValue_def toNumber_def roundToDouble_def Let_def)
  have "decoded (encode digestTable (sampleDraws 7 ''id-1'') (Num (2 ^ 255)) ''f'' emptyState)
          = Inr (Num (toNumber (secretValueOf digestTable (Num (2 ^ 255)) mod PRIME)))"
    by (rule decoded_encode) (simp add: secretValueOf_def)
  moreover have "secretValueOf digestTable (Num (2 ^ 255)) mod PRIME = 19"
    by (simp add: secretValueOf_def PRIME_def)
  ultimately have "decoded (encode digestTable (sampleDraws 7 ''id-1'') (Num (2 ^ 255)) ''f'' emptyState)
          = Inr (Num 19)"
    by (simp add: toNumber_small)
  then show ?thesis
    using p n by simp
qed

text \<open>
  C8.  \<open>splitSecret\<close> fails with the threshold error exactly when \<open>k > n\<close> and
  otherwise returns one share for each of \<open>x = 1, ..., n\<close> (\<open>n\<close> shares; none when
  \<open>n\<close> is not positive).  \<open>reconstructSecret\<close> fails with the error of too few
  shares exactly when fewer than two shares are supplied and otherwise returns a field
  element, an integer in \<open>[0, PRIME)\<close>.
\<close>

theorem split_reconstruct_failures:
  "(splitSecret rnd secret n k = Inl InvalidThreshold \<longleftrightarrow> k > n)
   \<and> (\<not> k > n \<longrightarrow> (\<exists>shs. splitSecret rnd secret n k = Inr shs \<and> int (length shs) = max 0 n))
   \<and> (reconstructSecret ys = Inl InsufficientShares \<longleftrightarrow> length ys < 2)
   \<and> (\<not> length ys < 2 \<longrightarrow> (\<exists>v. reconstructSecret ys = Inr v \<and> 0 \<le> v \<and> v < PRIME))"
proof -
  have r: "(reconstructSecret ys = Inl InsufficientShares \<longleftrightarrow> length ys < 2)
      \<and> (\<not> length ys < 2 \<longrightarrow> (\<exists>v. reconstructSecret ys = Inr v \<and> 0 \<le> v \<and> v < PRIME))"
  proof (cases "length ys < 2")
    case True
    then show ?thesis by (simp add: reconstructSecret_def)
  next
    case False
    then obtain v where "reconstructSecret ys = Inr v" "0 \<le> v" "v < PRIME"
      using reconstruct_total [of ys] by auto
    with False show ?thesis by simp
  qed
  have s: "(splitSecret rnd secret n k = Inl InvalidThreshold \<longleftrightarrow> k > n)
   \<and> (\<not> k > n \<longrightarrow> (\<exists>shs. splitSecret rnd secret n k = Inr shs \<and> int (length shs) = max 0 n))"
    by (auto simp: splitSecret_def Let_def)
  from s r show ?thesis by blast
qed

text \<open>
  Three shares with threshold two, and their reconstruction.
\<close>

theorem split_reconstruct_failures_witness:
  "\<not> (2::int) > 3
   \<and> (\<exists>shs. splitSecret (fixedDraw 7) 10 3 2 = Inr shs \<and> int (length shs) = max 0 3)
   \<and> \<not> length [17, 24, 31::int] < 2
   \<and> (\<exists>v. reconstructSecret [17, 24, 31] = Inr v \<and> 0 \<le> v \<and> v < PRIME)"
  using split_reconstruct_failures [of "fixedDraw 7" 10 3 2 "[17, 24, 31]"]
  by simp

section \<open>Properties of encoding and decoding\<close>

text \<open>
  C5, on the field elements.  For every integer \<open>n\<close> with \<open>0 \<le> n < PRIME\<close> that is
  a number value (an argument of \<^verbatim>\<open>encode\<close> is a double, so it is an integer a double
  holds exactly) and every draw of the share coefficient, \<open>decode (encode n)\<close> is \<open>n\<close>.
\<close>

theorem numeric_roundtrip:
  assumes "0 \<le> n" and "n < PRIME" and "isNumberValue n"
  shows "decoded (encode H env (Num n) name st) = Inr (Num n)"
proof -
  have "decoded (encode H env (Num n) name st) = Inr (Num (toNumber (secretValueOf H (Num n) mod PRIME)))"
    using assms by (intro decoded_encode) (simp add: secretValueOf_def)
  then show ?thesis
    using assms by (simp add: secretValueOf_def isNumberValue_def)
qed

text \<open>
  The same at the age 35.
\<close>

theorem numeric_roundtrip_witness:
  "(0::int) \<le> 35 \<and> 35 < PRIME \<and> isNumberValue 35
   \<and> decoded (encode digestTable (sampleDraws 5 ''id-1'') (Num 35) ''age'' emptyState) = Inr (Num 35)"
proof -
  have h: "(0::int) \<le> 35" "35 < PRIME" "isNumberValue 35"
    by (simp_all add: PRIME_def isNumberValue_def toNumber_small)
  then show ?thesis
    using numeric_roundtrip [of 35 digestTable "sampleDraws 5 ''id-1''" "''age''" emptyState]
    by simp
qed

text \<open>
  The specification extends C5 to the negative integers above \<open>- PRIME\<close>.  There the
  round trip fails: the shares of \<open>- 1\<close> under the draw 5 are 4 and 9, which reconstruct
  to the field element \<open>PRIME - 1\<close>, and \<^verbatim>\<open>decode\<close> returns the double next to it,
  \<open>2 ^ 255\<close>.
\<close>

theorem negative_number_counterexample:
  "isNumberValue (- 1)
   \<and> decoded (encode digestTable (sampleDraws 5 ''id-1'') (Num (- 1)) ''f'' emptyState) = Inr (Num (2 ^ 255))"
proof -
  have n: "isNumberValue (- 1)"
    by (simp add: isNumberValue_def toNumber_def roundToDouble_def
          bitLength.simps [of "Suc 0"] bitLength.simps [of 0])
  obtain r st' where r: "encode digestTable (sampleDraws 5 ''id-1'') (Num (- 1)) ''f'' emptyState = Inr (r, st')"
    "carries r (evalShare [- 1, trem 5 PRIME] 1) (evalShare [- 1, trem 5 PRIME] 2)"
    using encode_carries [of digestTable "sampleDraws 5 ''id-1''" "Num (- 1)" "''f''" emptyState]
    by (auto simp: secretValueOf_def sampleDraws_def fixedDraw_def)
  have e: "evalShare [- 1, trem 5 PRIME] 1 = 4" "evalShare [- 1, trem 5 PRIME] 2 = 9"
    by (simp_all add: evalShare_pair trem_def PRIME_def)
  have "decode r = Inr (Num (toNumber ((2 * 4 + (PRIME - 1) * 9) mod PRIME)))"
    using r(2) unfolding e by (rule decode_carries) simp_all
  moreover have "(2 * 4 + (PRIME - 1) * 9) mod PRIME = PRIME - 1"
    by (simp add: PRIME_def)
  ultimately show ?thesis
    using n by (simp add: r(1) decoded_def toNumber_P1)
qed

text \<open>
  C6.  The specification has \<open>decode (encode s)\<close> equal, as an integer, the digest of
  \<open>s\<close> reduced modulo \<open>PRIME\<close>.  For the string \<^verbatim>\<open>AB12CD34\<close> the reduced digest is
  \<open>46383318481657724930234850934980960146006438523890288763363973865256437811931\<close>, and
  \<^verbatim>\<open>decode\<close> returns the double nearest to it, which is another integer:
  \<^verbatim>\<open>Number(reconstructed)\<close> keeps 53 of its 255 bits.
\<close>

theorem string_decodes_to_rounded_digest:
  "decoded (encode digestTable (sampleDraws 5 ''id-1'') (Str ''AB12CD34'') ''verificationCode'' emptyState)
     = Inr (Num 46383318481657725478808662934799211240332906317687764677562845035710809899008)
   \<and> int (digestTable ''AB12CD34'') mod PRIME
     = 46383318481657724930234850934980960146006438523890288763363973865256437811931"
proof -
  let ?d = "46383318481657724930234850934980960146006438523890288763363973865256437811931 :: int"
  have d: "int (digestTable ''AB12CD34'') mod PRIME = ?d"
    by (simp add: digestTable_def PRIME_def)
  have "bitLength (nat ?d) = 255"
    by (rule bitLength_bounds) simp_all
  then have "toNumber ?d = 46383318481657725478808662934799211240332906317687764677562845035710809899008"
    by (simp add: toNumber_def roundToDouble_def Let_def)
  then show ?thesis
    using d by (simp add: decoded_encode_Str)
qed

section \<open>Properties of comparison and aggregation\<close>

text \<open>
  C2.  The specification has \<^verbatim>\<open>secureEquality\<close> on two encodings of the same
  integer decode to 1 whatever the two calls drew.  With 5 encoded under the draw 1 (shares 6
  and 7) and again under the draw 2 (shares 7 and 9) the shares differ, and the record
  returned decodes to 0.
\<close>

theorem equality_of_fresh_encodings:
  "decoded (secureEqualityOfEncoded digestTable (sampleDraws 1 ''id-1'') (sampleDraws 2 ''id-2'')
              (sampleDraws 3 ''id-3'') (Num 5) (Num 5) ''f'' emptyState) = Inr (Num 0)"
proof -
  have "(0::int) \<le> 5" "(5::int) < PRIME" by (simp_all add: PRIME_def)
  then show ?thesis
    by (simp add: secureEquality_of_encoded) (simp add: sampleDraws_def fixedDraw_def PRIME_def)
qed

text \<open>
  C3.  The specification has the aggregate of the encodings of 3 and 4 decode to 7
  whatever the two calls drew.  Under the draws 2 and 0 the shares are 5, 7 and 4, 4; their plain
  sum 20 is split into 10 and 10, and the record decodes to 10.  Under the draws 0 and 0
  it decodes to 7.
\<close>

theorem aggregate_depends_on_draws:
  "decoded (secureAggregateOfEncoded digestTable (sampleDraws 2 ''id-1'') (sampleDraws 0 ''id-2'')
              (sampleDraws 0 ''id-3'') (Num 3) (Num 4) ''a'' emptyState) = Inr (Num 10)
   \<and> decoded (secureAggregateOfEncoded digestTable (sampleDraws 0 ''id-1'') (sampleDraws 0 ''id-2'')
              (sampleDraws 0 ''id-3'') (Num 3) (Num 4) ''a'' emptyState) = Inr (Num 7)"
proof -
  have "decoded (secureAggregateOfEncoded digestTable (sampleDraws 2 ''id-1'') (sampleDraws 0 ''id-2'')
              (sampleDraws 0 ''id-3'') (Num 3) (Num 4) ''a'' emptyState)
          = Inr (Num (toNumber ((2 * (20 div 2) + (PRIME - 1) * (20 - 20 div 2)) mod PRIME)))"
    by (rule aggregate_of_encoded [THEN conjunct2])
       (simp_all add: sampleDraws_def fixedDraw_def PRIME_def)
  moreover have "(2 * (20 div 2) + (PRIME - 1) * (20 - 20 div 2)) mod PRIME = 10"
    by (simp add: PRIME_def)
  moreover have "decoded (secureAggregateOfEncoded digestTable (sampleDraws 0 ''id-1'') (sampleDraws 0 ''id-2'')
              (sampleDraws 0 ''id-3'') (Num 3) (Num 4) ''a'' emptyState)
          = Inr (Num (toNumber ((2 * (14 div 2) + (PRIME - 1) * (14 - 14 div 2)) mod PRIME)))"
    by (rule aggregate_of_encoded [THEN conjunct2])
       (simp_all add: sampleDraws_def fixedDraw_def PRIME_def)
  moreover have "(2 * (14 div 2) + (PRIME - 1) * (14 - 14 div 2)) mod PRIME = 7"
    by (simp add: PRIME_def)
  ultimately show ?thesis
    by (simp add: toNumber_small)
qed

text \<open>
  C7, as the code has it.  \<open>secureAnd\<close> applied to an empty sequence raises no error: its
  accumulator starts at 1 and the loop does not run, so it returns the record that
  \<^verbatim>\<open>encodeBoolean(true, 'combined_result')\<close> returns, which decodes to 1.
\<close>

theorem secureAnd_empty:
  "secureAnd H env [] st = encodeBoolean H env True ''combined_result'' st
   \<and> decoded (secureAnd H env [] st) = Inr (Num 1)"
  by (simp add: secureAnd_def decoded_encodeBoolean)

text \<open>
  The specification has the call on an empty sequence fail.  On a fresh framework object
  it returns a record, and the record decodes to 1.
\<close>

theorem secureAnd_empty_counterexample:
  "\<not> isl (secureAnd digestTable (sampleDraws 9 ''id-1'') [] emptyState)
   \<and> decoded (secureAnd digestTable (sampleDraws 9 ''id-1'') [] emptyState) = Inr (Num 1)"
proof -
  have "decoded (secureAnd digestTable (sampleDraws 9 ''id-1'') [] emptyState) = Inr (Num 1)"
    by (simp add: secureAnd_def decoded_encodeBoolean)
  then show ?thesis
    by (auto simp: decoded_def split: sum.splits)
qed

text \<open>
  C9, without the aggregate.  Every record returned by \<open>encode\<close> (on a string, or on an integer
  in \<open>[0, PRIME)\<close>), by \<open>secureEquality\<close> or by \<open>secureAnd\<close> is valid: both shares
  are field elements, and they are the values at 1 and 2 of a polynomial of degree 1 whose
  constant term is the encoded secret (the integer, the reduced digest, the bit 0 or 1).
\<close>

theorem returned_records_valid:
  "(0 \<le> n \<and> n < PRIME \<longrightarrow> validResult (encode H env (Num n) name st) n)
   \<and> validResult (encode H env (Str s) name st) (int (H s) mod PRIME)
   \<and> (secureEquality H env sv1 sv2 st = Inr (r, st') \<longrightarrow> validRecord r 0 \<or> validRecord r 1)
   \<and> (secureAnd H env svs st = Inr (r', st'') \<longrightarrow> validRecord r' 0 \<or> validRecord r' 1)"
proof -
  have eq: "validRecord r 0 \<or> validRecord r 1" if "secureEquality H env sv1 sv2 st = Inr (r, st')"
  proof -
    from that obtain b nm where "encodeBoolean H env b nm st = Inr (r, st')"
      by (auto simp: secureEquality_def Let_def split: sum.splits)
    then show ?thesis
      using encodeBoolean_valid [of H env b nm st r st'] by (cases b) simp_all
  qed
  have an: "validRecord r' 0 \<or> validRecord r' 1" if "secureAnd H env svs st = Inr (r', st'')"
  proof -
    from that obtain b where "encodeBoolean H env b ''combined_result'' st = Inr (r', st'')"
      by (auto simp: secureAnd_def split: sum.splits)
    then show ?thesis
      using encodeBoolean_valid [of H env b _ st r' st''] by (cases b) simp_all
  qed
  show ?thesis
    using eq an by (simp add: encode_Num_valid encode_Str_valid)
qed

text \<open>
  The same at the age 35, at an equality of two parsed records and at the empty conjunction.
\<close>

theorem returned_records_valid_witness:
  "(0::int) \<le> 35 \<and> 35 < PRIME
   \<and> validResult (encode digestTable (sampleDraws 5 ''id-1'') (Num 35) ''age'' emptyState) 35
   \<and> (\<exists>r st'. secureEquality digestTable (sampleDraws 5 ''id-1'')
                  (sampleRecord ''0a'' ''0f'') (sampleRecord ''0a'' ''0f'') emptyState = Inr (r, st')
               \<and> (validRecord r 0 \<or> validRecord r 1))
   \<and> (\<exists>r st'. secureAnd digestTable (sampleDraws 5 ''id-1'') [] emptyState = Inr (r, st')
               \<and> (validRecord r 0 \<or> validRecord r 1))"
proof -
  obtain r1 st1 where r1: "secureEquality digestTable (sampleDraws 5 ''id-1'')
                  (sampleRecord ''0a'' ''0f'') (sampleRecord ''0a'' ''0f'') emptyState = Inr (r1, st1)"
    using secureEquality_sample_returns by blast
  obtain r2 st2 where r2: "secureAnd digestTable (sampleDraws 5 ''id-1'') [] emptyState = Inr (r2, st2)"
    using secureAnd_sample_returns by blast
  have h: "(0::int) \<le> 35 \<and> 35 < PRIME" by (simp add: PRIME_def)
  show ?thesis
    using h r1 r2
      returned_records_valid [of 35 digestTable "sampleDraws 5 ''id-1''" "''age''" emptyState "''x''"
        "sampleRecord ''0a'' ''0f''" "sampleRecord ''0a'' ''0f''" r1 st1 "[]" r2 st2]
    by auto
qed

text \<open>
  The specification extends C9 to \<open>secureAggregate\<close>.  There it fails: the encoding of 0 under
  the draw \<open>PRIME - 1\<close> is a valid record with the shares \<open>PRIME - 1\<close> and
  \<open>PRIME - 2\<close>; the aggregate of two such records holds the two halves of
  \<open>4 * PRIME - 6\<close>, and \<open>2 * PRIME - 3\<close> is no field element.
\<close>

theorem aggregate_record_counterexample:
  "validResult (encode digestTable
        (sampleDraws 57896044618658097711785492504343953926634992332820282019728792003956564819948 ''id-1'')
        (Num 0) ''a'' emptyState) 0
   \<and> sharesOf (secureAggregateOfEncoded digestTable
        (sampleDraws 57896044618658097711785492504343953926634992332820282019728792003956564819948 ''id-1'')
        (sampleDraws 57896044618658097711785492504343953926634992332820282019728792003956564819948 ''id-2'')
        (sampleDraws 0 ''id-3'') (Num 0) (Num 0) ''a'' emptyState)
      = Inr (Inr (2 * PRIME - 3), Inr (2 * PRIME - 3))
   \<and> PRIME \<le> 2 * PRIME - 3"
proof -
  let ?c = "57896044618658097711785492504343953926634992332820282019728792003956564819948 :: nat"
  have "validResult (encode digestTable (sampleDraws ?c ''id-1'') (Num 0) ''a'' emptyState) 0"
    by (rule encode_Num_valid) (simp_all add: PRIME_def)
  moreover have "sharesOf (secureAggregateOfEncoded digestTable (sampleDraws ?c ''id-1'')
        (sampleDraws ?c ''id-2'') (sampleDraws 0 ''id-3'') (Num 0) (Num 0) ''a'' emptyState)
      = Inr (Inr ((4 * PRIME - 6) div 2), Inr ((4 * PRIME - 6) - (4 * PRIME - 6) div 2))"
    by (rule aggregate_of_encoded [THEN conjunct1])
       (simp_all add: sampleDraws_def fixedDraw_def PRIME_def)
  moreover have "(4 * PRIME - 6) div 2 = 2 * PRIME - 3" by simp
  moreover have "PRIME \<le> 2 * PRIME - 3" by (simp add: PRIME_def)
  ultimately show ?thesis by simp
qed

text \<open>
  C10.  Every record returned by \<open>secureEquality\<close> or by \<open>secureAnd\<close>, on any inputs,
  encodes a boolean: it decodes to 0 or to 1.
\<close>

theorem comparison_results_boolean:
  "(secureEquality H env sv1 sv2 st = Inr (r, st') \<longrightarrow> decode r = Inr (Num 0) \<or> decode r = Inr (Num 1))
   \<and> (secureAnd H env svs st = Inr (r', st'') \<longrightarrow> decode r' = Inr (Num 0) \<or> decode r' = Inr (Num 1))"
  using secureEquality_boolean [of H env sv1 sv2 st r st'] secureAnd_boolean [of H env svs st r' st'']
  by blast

text \<open>
  The same at an equality of two parsed records and at the empty conjunction.
\<close>

theorem comparison_results_boolean_witness:
  "(\<exists>r st'. secureEquality digestTable (sampleDraws 5 ''id-1'')
                  (sampleRecord ''0a'' ''0f'') (sampleRecord ''0a'' ''0f'') emptyState = Inr (r, st')
               \<and> (decode r = Inr (Num 0) \<or> decode r = Inr (Num 1)))
   \<and> (\<exists>r st'. secureAnd digestTable (sampleDraws 5 ''id-1'') [] emptyState = Inr (r, st')
               \<and> (decode r = Inr (Num 0) \<or> decode r = Inr (Num 1)))"
proof -
  obtain r1 st1 where r1: "secureEquality digestTable (sampleDraws 5 ''id-1'')
                  (sampleRecord ''0a'' ''0f'') (sampleRecord ''0a'' ''0f'') emptyState = Inr (r1, st1)"
    using secureEquality_sample_returns by blast
  obtain r2 st2 where r2: "secureAnd digestTable (sampleDraws 5 ''id-1'') [] emptyState = Inr (r2, st2)"
    using secureAnd_sample_returns by blast
  show ?thesis
    using r1 r2
      comparison_results_boolean [of digestTable "sampleDraws 5 ''id-1''"
        "sampleRecord ''0a'' ''0f''" "sampleRecord ''0a'' ''0f''" emptyState r1 st1 "[]" r2 st2]
    by auto
qed

end
